theory Spec2Isabelle
  imports Main
begin

section \<open>Host environment consumed by the Wildfire class\<close>

text \<open>
  The class \<open>Wildfire\<close> of \<open>wildfire.js\<close> runs inside a virtual tabletop whose canvas,
  grid, dice roller and persistence layer are not part of the repository. The grid geometry
  and the dice roller are taken as parameters (record \<open>host\<close>); the scene is explicit
  state (record \<open>world\<close>). Pixel coordinates and dice totals are integers, and the
  roller is given by the total it returns for a formula at each successive draw (the
  formulas handed to it are taken to be well formed). The static helpers that create an
  instance for a selected token or flag the selected drawings, and the hooks, only call the
  host and are left out.
\<close>

type_synonym cell = "int \<times> int"  \<comment> \<open>a grid position \<open>[row, col]\<close>\<close>

type_synonym addr = nat  \<comment> \<open>the identity of a JavaScript data object\<close>

record host =
  getGridPositionFromPixels :: "int \<Rightarrow> int \<Rightarrow> cell"
  getPixelsFromGridPosition :: "int \<Rightarrow> int \<Rightarrow> int \<times> int"
  getNeighbors :: "int \<Rightarrow> int \<Rightarrow> cell list"
  grid_w :: int  \<comment> \<open>\<open>canvas.grid.grid.w\<close>\<close>
  roll_total :: "string \<Rightarrow> nat \<Rightarrow> int"
    \<comment> \<open>\<open>new Roll(formula).roll().total\<close> for the n-th draw made from the randomizer\<close>

text \<open>
  The data object of a token: its anchor, the fields \<open>createWildfire\<close> reads, and the
  flag \<open>flags.wildfire.fire\<close>.
\<close>

record token_data =
  data_x :: int
  data_y :: int
  data_img :: string
  data_name :: string
  flags_wildfire_fire :: bool

text \<open>
  A drawing: \<open>area.data.x\<close>, \<open>area.data.y\<close>, \<open>area.width\<close>, \<open>area.height\<close> and the
  flag \<open>flags.wildfire.flammable\<close>.
\<close>

record drawing =
  area_x :: int
  area_y :: int
  area_width :: int
  area_height :: int
  flags_wildfire_flammable :: bool

text \<open>
  Data objects live in a store and are referred to by address, so that sharing and
  copying can be told apart. A token of the canvas is represented by the address of its
  \<open>data\<close> object (\<open>t.x\<close> reads \<open>t.data.x\<close>). \<open>rolled\<close> is the trace of the
  randomizer: one entry, the cell rolled for, per draw consumed. \<open>notified\<close> is the trace of
  the counts passed to \<open>ui.notifications.notify\<close>.
\<close>

record world =
  heap :: "token_data list"
  tokens :: "addr list"  \<comment> \<open>\<open>canvas.tokens.objects.children\<close>\<close>
  drawings :: "drawing list"  \<comment> \<open>\<open>canvas.drawings.objects.children\<close>\<close>
  rolled :: "cell list"
  notified :: "nat list"

section \<open>Chance and the comparison against its target\<close>

text \<open>
  The target of a chance is documented as a number, but the default chance of the
  constructor carries the string \<open>"1"\<close>; the comparison \<open>total < chance.target\<close> then
  converts the string to a number.
\<close>

datatype jsval = Num int | Str string

record Chance =
  formula :: string
  target :: jsval

definition isWhiteSpace :: "char \<Rightarrow> bool" where
  "isWhiteSpace c = (c = CHR '' '' \<or> c = CHR 0x09 \<or> c = CHR 0x0A \<or> c = CHR 0x0B
     \<or> c = CHR 0x0C \<or> c = CHR 0x0D)"

definition isDigit :: "char \<Rightarrow> bool" where
  "isDigit c = (48 \<le> (of_char c :: nat) \<and> (of_char c :: nat) \<le> 57)"

fun digitsValue :: "string \<Rightarrow> nat \<Rightarrow> nat option" where
  "digitsValue [] acc = Some acc"
| "digitsValue (c # cs) acc =
     (if isDigit c then digitsValue cs (10 * acc + (of_char c - 48)) else None)"

definition trim :: "string \<Rightarrow> string" where
  "trim s = rev (dropWhile isWhiteSpace (rev (dropWhile isWhiteSpace s)))"

text \<open>
  The conversion of a string to a number, on decimal integer literals: surrounding white
  space is dropped, the empty string is 0, an optionally signed run of digits is its value,
  and \<open>None\<close> stands for NaN. (Fractions, exponents, hexadecimal literals and
  \<open>Infinity\<close> are outside this fragment; the program supplies none of them.)
\<close>

definition StringToNumber :: "string \<Rightarrow> int option" where
  "StringToNumber s =
     (case trim s of
        [] \<Rightarrow> Some 0
      | c # ds \<Rightarrow>
          if c = CHR ''-'' then
            (if ds = [] then None else map_option (\<lambda>n. - int n) (digitsValue ds 0))
          else if c = CHR ''+'' then
            (if ds = [] then None else map_option int (digitsValue ds 0))
          else map_option int (digitsValue (c # ds) 0))"

definition ToNumber :: "jsval \<Rightarrow> int option" where
  "ToNumber v = (case v of Num n \<Rightarrow> Some n | Str s \<Rightarrow> StringToNumber s)"

text \<open>\<open>total < target\<close>: a comparison with NaN is false.\<close>

definition js_less :: "int \<Rightarrow> jsval \<Rightarrow> bool" where
  "js_less tot t = (case ToNumber t of None \<Rightarrow> False | Some n \<Rightarrow> tot < n)"

section \<open>The class Wildfire\<close>

record Wildfire =
  priv_token :: addr  \<comment> \<open>\<open>this._token\<close>\<close>
  chance :: Chance
  newFires :: "addr list"
  spreading :: bool

type_synonym state = "Wildfire \<times> world"

text \<open>
  \<open>duplicate\<close> is the host's deep clone: a new object with the contents of the old one.
  An address is only ever obtained by allocation, so the addresses a program holds are below
  the length of the heap (\<open>heap_ok\<close> below); no JavaScript reference dangles.
\<close>

definition duplicate :: "addr \<Rightarrow> world \<Rightarrow> addr \<times> world" where
  "duplicate a wd = (length (heap wd), wd\<lparr>heap := heap wd @ [heap wd ! a]\<rparr>)"

definition getGridPos :: "host \<Rightarrow> int \<times> int \<Rightarrow> cell" where
  "getGridPos h p = getGridPositionFromPixels h (fst p) (snd p)"

definition getPixelPos :: "host \<Rightarrow> cell \<Rightarrow> int \<times> int" where
  "getPixelPos h c = getPixelsFromGridPosition h (fst c) (snd c)"

definition getNeighbors_of :: "host \<Rightarrow> cell \<Rightarrow> cell list" where
  "getNeighbors_of h c = getNeighbors h (fst c) (snd c)"

text \<open>The accessors \<open>get token\<close> and \<open>set token\<close>.\<close>

fun get_token :: "state \<Rightarrow> addr \<times> state" where
  "get_token (self, wd) = (let (a, wd') = duplicate (priv_token self) wd in (a, (self, wd')))"

fun set_token :: "addr \<Rightarrow> state \<Rightarrow> state" where
  "set_token tkn (self, wd) = (let (a, wd') = duplicate tkn wd in (self\<lparr>priv_token := a\<rparr>, wd'))"

text \<open>
  The constructor; \<open>prototype\<close> is the source token, given by the address of its data,
  and an absent chance is the default \<open>{ formula: "1d1", target: "1" }\<close>.
\<close>

definition default_chance :: Chance where
  "default_chance = \<lparr>formula = ''1d1'', target = Str ''1''\<rparr>"

definition new_Wildfire :: "addr \<Rightarrow> Chance option \<Rightarrow> world \<Rightarrow> state" where
  "new_Wildfire prototype ch wd =
     set_token prototype
       (\<lparr>priv_token = 0,
         chance = (case ch of None \<Rightarrow> default_chance | Some c \<Rightarrow> c),
         newFires = [],
         spreading = False\<rparr>, wd)"

definition realFires :: "world \<Rightarrow> addr list" where
  "realFires wd = filter (\<lambda>t. flags_wildfire_fire (heap wd ! t)) (tokens wd)"

fun fires :: "state \<Rightarrow> addr list" where
  "fires (self, wd) = realFires wd @ newFires self"

definition flammableAreas :: "world \<Rightarrow> drawing list" where
  "flammableAreas wd = filter flags_wildfire_flammable (drawings wd)"

definition gridSize :: "host \<Rightarrow> int" where
  "gridSize h = grid_w h"

fun isBurning :: "host \<Rightarrow> state \<Rightarrow> cell \<Rightarrow> bool" where
  "isBurning h (self, wd) c =
     (let (x, y) = getPixelPos h c
      in list_ex (\<lambda>t. data_x (heap wd ! t) = x \<and> data_y (heap wd ! t) = y) (fires (self, wd)))"

definition areaContains :: "host \<Rightarrow> drawing \<Rightarrow> cell \<Rightarrow> bool" where
  "areaContains h area c =
     (let (cx, cy) = getPixelPos h c;
          tl1 = (area_x area, area_y area);
          tl2 = (cx, cy);
          br1 = (fst tl1 + area_width area, snd tl1 + area_height area);
          br2 = (fst tl2 + gridSize h, snd tl2 + gridSize h)
      in \<not> (fst tl1 \<ge> fst br2 \<or> fst tl2 \<ge> fst br1 \<or> snd tl1 \<ge> snd br2 \<or> snd tl2 \<ge> snd br1))"

definition isInFlammableArea :: "host \<Rightarrow> world \<Rightarrow> cell \<Rightarrow> bool" where
  "isInFlammableArea h wd c = list_ex (\<lambda>area. areaContains h area c) (flammableAreas wd)"

fun isFlammable :: "host \<Rightarrow> state \<Rightarrow> cell \<Rightarrow> bool" where
  "isFlammable h (self, wd) c = (\<not> isBurning h (self, wd) c \<and> isInFlammableArea h wd c)"

fun light :: "host \<Rightarrow> cell \<Rightarrow> state \<Rightarrow> state" where
  "light h c (self, wd) =
     (let (x, y) = getPixelPos h c;
          (tmp, st1) = get_token (self, wd);
          (data, wd2) = duplicate tmp (snd st1);
          wd3 = wd2\<lparr>heap := (heap wd2)[data := (heap wd2 ! data)\<lparr>data_x := x, data_y := y\<rparr>]\<rparr>
      in (self\<lparr>newFires := newFires self @ [data]\<rparr>, wd3))"

fun spreadToCell :: "host \<Rightarrow> cell \<Rightarrow> Chance \<Rightarrow> state \<Rightarrow> state" where
  "spreadToCell h c ch (self, wd) =
     (if \<not> isFlammable h (self, wd) c then (self, wd)
      else
        let tot = roll_total h (formula ch) (length (rolled wd));
            wd' = wd\<lparr>rolled := rolled wd @ [c]\<rparr>
        in if js_less tot (target ch) then (self, wd') else light h c (self, wd'))"

fun spreadToNeighbors :: "host \<Rightarrow> addr \<Rightarrow> Chance \<Rightarrow> state \<Rightarrow> state" where
  "spreadToNeighbors h fire ch (self, wd) =
     (let location = (data_x (heap wd ! fire), data_y (heap wd ! fire));
          c = getGridPos h location;
          neighbors = getNeighbors_of h c
      in fold (\<lambda>c. spreadToCell h c ch) neighbors (self, wd))"

section \<open>The asynchronous step \<open>spread\<close>\<close>

text \<open>
  \<open>canvas.tokens.createMany\<close> is the host's persistence call. Its promise is either
  fulfilled, after the host has added the data objects it created to the canvas, or rejected.
\<close>

datatype error = CommitFailed

datatype createMany_result = Fulfilled "token_data list" | Rejected

datatype completion = Ok | Raised error

text \<open>
  \<open>createNewFires\<close> hands \<open>this.newFires\<close> to \<open>createMany\<close> and is suspended at the
  \<open>await\<close>. When the promise settles it either raises, or notifies the count and clears
  \<open>newFires\<close>.
\<close>

fun createNewFires_resume :: "createMany_result \<Rightarrow> state \<Rightarrow> completion \<times> state" where
  "createNewFires_resume Rejected (self, wd) = (Raised CommitFailed, (self, wd))"
| "createNewFires_resume (Fulfilled created) (self, wd) =
     (Ok,
      (self\<lparr>newFires := []\<rparr>,
       wd\<lparr>heap := heap wd @ created,
          tokens := tokens wd @ [length (heap wd) ..< length (heap wd) + length created],
          notified := notified wd @ [length (newFires self)]\<rparr>))"

text \<open>
  \<open>spread\<close> runs synchronously up to \<open>await this.createNewFires()\<close>: either it has
  returned at the guard (\<open>Done\<close>), or it is suspended with a batch handed to
  \<open>createMany\<close> (\<open>Awaiting\<close>). An absent argument is \<open>this.chance\<close>.
\<close>

datatype suspension = Done | Awaiting "addr list"

fun spread_begin :: "host \<Rightarrow> Chance option \<Rightarrow> state \<Rightarrow> suspension \<times> state" where
  "spread_begin h ch (self, wd) =
     (let chance' = (case ch of None \<Rightarrow> chance self | Some c \<Rightarrow> c)
      in if spreading self then (Done, (self, wd))
         else
           let st1 = (self\<lparr>spreading := True\<rparr>, wd);
               st2 = fold (\<lambda>fire. spreadToNeighbors h fire chance') (realFires wd) st1
           in (Awaiting (newFires (fst st2)), st2))"

text \<open>
  The rest of \<open>spread\<close>, run when the promise settles: a rejection is re-raised by the
  \<open>await\<close> and the statements after it are skipped.
\<close>

fun spread_resume :: "createMany_result \<Rightarrow> state \<Rightarrow> completion \<times> state" where
  "spread_resume r st =
     (case createNewFires_resume r st of
        (Raised e, st') \<Rightarrow> (Raised e, st')
      | (Ok, (self', wd')) \<Rightarrow> (Ok, (self'\<lparr>spreading := False\<rparr>, wd')))"

text \<open>
  One whole call of \<open>spread\<close> with nothing else running while it is suspended;
  \<open>createMany\<close> is the host's answer to the batch it is given.
\<close>

definition spread ::
  "host \<Rightarrow> (token_data list \<Rightarrow> createMany_result) \<Rightarrow> Chance option \<Rightarrow> state \<Rightarrow> completion \<times> state"
where
  "spread h createMany ch st =
     (case spread_begin h ch st of
        (Done, st') \<Rightarrow> (Ok, st')
      | (Awaiting batch, st') \<Rightarrow>
          spread_resume (createMany (map (\<lambda>a. heap (snd st') ! a) batch)) st')"

text \<open>
  The event loop around one instance: calls of \<open>spread\<close>, promises settling (oldest
  first), and anything else the host does to the scene. \<open>fst\<close> of a configuration is the
  list of batches whose \<open>spread\<close> call is suspended.
\<close>

datatype event = Call "Chance option" | Settle createMany_result | Env "world \<Rightarrow> world"

type_synonym config = "addr list list \<times> state"

fun exec :: "host \<Rightarrow> event \<Rightarrow> config \<Rightarrow> config" where
  "exec h (Call ch) (p, st) =
     (case spread_begin h ch st of
        (Done, st') \<Rightarrow> (p, st')
      | (Awaiting b, st') \<Rightarrow> (p @ [b], st'))"
| "exec h (Settle r) (p, st) =
     (case p of [] \<Rightarrow> (p, st) | b # p' \<Rightarrow> (p', snd (spread_resume r st)))"
| "exec h (Env f) (p, (self, wd)) = (p, (self, f wd))"

definition run :: "host \<Rightarrow> event list \<Rightarrow> config \<Rightarrow> config" where
  "run h evs cfg = fold (exec h) evs cfg"

section \<open>Notions used to state the properties\<close>

text \<open>The anchor \<open>(x, y)\<close> of the data object at an address.\<close>

definition anchor :: "world \<Rightarrow> addr \<Rightarrow> int \<times> int" where
  "anchor wd t = (data_x (heap wd ! t), data_y (heap wd ! t))"

text \<open>
  The cells handed to \<open>spreadToCell\<close> during one step, in order: the neighbors of the
  cell of every real fire.
\<close>

definition visits :: "host \<Rightarrow> world \<Rightarrow> cell list" where
  "visits h wd =
     concat (map (\<lambda>fire. getNeighbors_of h (getGridPos h (anchor wd fire))) (realFires wd))"

definition spreadCells :: "host \<Rightarrow> Chance \<Rightarrow> cell list \<Rightarrow> state \<Rightarrow> state" where
  "spreadCells h ch cs st = fold (\<lambda>c. spreadToCell h c ch) cs st"

text \<open>
  No dangling references: every address held by the instance or the canvas is allocated.
\<close>

definition heap_ok :: "state \<Rightarrow> bool" where
  "heap_ok st =
     (priv_token (fst st) < length (heap (snd st)) \<and>
      list_all (\<lambda>a. a < length (heap (snd st))) (newFires (fst st)) \<and>
      list_all (\<lambda>a. a < length (heap (snd st))) (tokens (snd st)))"

text \<open>
  During the synchronous part of a step the scene \<open>wd0\<close> only grows at the end of the
  heap: canvas and drawings stay, and objects already allocated keep their contents.
\<close>

definition extends :: "world \<Rightarrow> state \<Rightarrow> bool" where
  "extends wd0 st =
     (take (length (heap wd0)) (heap (snd st)) = heap wd0 \<and>
      length (heap wd0) \<le> length (heap (snd st)) \<and>
      tokens (snd st) = tokens wd0 \<and> drawings (snd st) = drawings wd0)"

text \<open>
  The pending fires of a state have pairwise different anchors, and none of them has the
  anchor of a real fire of the scene \<open>wd0\<close>.
\<close>

definition pending_ok :: "world \<Rightarrow> state \<Rightarrow> bool" where
  "pending_ok wd0 st =
     (distinct (map (anchor (snd st)) (newFires (fst st))) \<and>
      set (map (anchor (snd st)) (newFires (fst st))) \<inter> set (map (anchor wd0) (realFires wd0)) = {})"

text \<open>
  The grid cell an object lies in, objects anchored at the top-left pixel of their cell, and
  the condition on pending fires read on cells instead of anchors.
\<close>

definition cell_of :: "host \<Rightarrow> world \<Rightarrow> addr \<Rightarrow> cell" where
  "cell_of h wd t = getGridPos h (anchor wd t)"

definition on_grid :: "host \<Rightarrow> world \<Rightarrow> addr \<Rightarrow> bool" where
  "on_grid h wd t = (getPixelPos h (cell_of h wd t) = anchor wd t)"

definition cells_ok :: "host \<Rightarrow> world \<Rightarrow> state \<Rightarrow> bool" where
  "cells_ok h wd0 st =
     (distinct (map (cell_of h (snd st)) (newFires (fst st))) \<and>
      set (map (cell_of h (snd st)) (newFires (fst st))) \<inter>
        set (map (cell_of h wd0) (realFires wd0)) = {})"

definition pending_on_grid :: "host \<Rightarrow> state \<Rightarrow> bool" where
  "pending_on_grid h st =
     list_all (\<lambda>a. a < length (heap (snd st)) \<and> on_grid h (snd st) a) (newFires (fst st))"

text \<open>The invariant of the synchronous part of a step entered in the scene \<open>wd0\<close>.\<close>

definition step_inv :: "world \<Rightarrow> state \<Rightarrow> bool" where
  "step_inv wd0 st =
     (extends wd0 st \<and>
      list_all (\<lambda>a. a < length (heap wd0)) (tokens wd0) \<and>
      list_all (\<lambda>a. a < length (heap (snd st))) (newFires (fst st)) \<and>
      pending_ok wd0 st)"

text \<open>
  Since the step was entered in \<open>(self, wd)\<close>, the pending fires have only been added to,
  and none of the added fires is anchored at the cell \<open>c\<close>.
\<close>

definition gated :: "host \<Rightarrow> cell \<Rightarrow> Wildfire \<Rightarrow> world \<Rightarrow> state \<Rightarrow> bool" where
  "gated h c self wd st =
     (drawings (snd st) = drawings wd \<and>
      take (length (newFires self)) (newFires (fst st)) = newFires self \<and>
      list_all (\<lambda>a. a < length (heap (snd st)) \<and> anchor (snd st) a \<noteq> getPixelPos h c)
        (drop (length (newFires self)) (newFires (fst st))))"

text \<open>
  Some pending fire is anchored at the cell \<open>c\<close>, and \<open>k\<close> draws have been made for
  \<open>c\<close> so far.
\<close>

definition burnt :: "host \<Rightarrow> cell \<Rightarrow> nat \<Rightarrow> state \<Rightarrow> bool" where
  "burnt h c k st =
     (list_ex (\<lambda>t. t < length (heap (snd st)) \<and> anchor (snd st) t = getPixelPos h c)
        (newFires (fst st)) \<and>
      count_list (rolled (snd st)) c = k)"

text \<open>
  At most one suspended call of \<open>spread\<close>, and the flag is set while there is one.
\<close>

definition guard_inv :: "config \<Rightarrow> bool" where
  "guard_inv cfg = (length (fst cfg) \<le> 1 \<and> (fst cfg \<noteq> [] \<longrightarrow> spreading (fst (snd cfg))))"

text \<open>When no step is in progress there are no pending fires.\<close>

definition idle_inv :: "config \<Rightarrow> bool" where
  "idle_inv cfg = (spreading (fst (snd cfg)) \<or> newFires (fst (snd cfg)) = [])"

text \<open>
  Code outside the class overwriting the object at an address, and the record that
  \<open>light\<close> would push for a cell in a state.
\<close>

definition mutate :: "addr \<Rightarrow> token_data \<Rightarrow> state \<Rightarrow> state" where
  "mutate a v st = (fst st, (snd st)\<lparr>heap := (heap (snd st))[a := v]\<rparr>)"

definition ignition_record :: "host \<Rightarrow> cell \<Rightarrow> state \<Rightarrow> token_data" where
  "ignition_record h c st = heap (snd (light h c st)) ! last (newFires (fst (light h c st)))"

subsection \<open>The containment test in the words of the specification\<close>

record rect =
  rect_x :: int
  rect_y :: int
  rect_width :: int
  rect_height :: int

text \<open>
  One rectangle is entirely to the left of (above) another when its right (bottom) edge
  does not pass the other's left (top) edge; touching edges count as separation.
\<close>

definition entirely_left_of :: "rect \<Rightarrow> rect \<Rightarrow> bool" where
  "entirely_left_of r1 r2 = (rect_x r1 + rect_width r1 \<le> rect_x r2)"

definition entirely_above :: "rect \<Rightarrow> rect \<Rightarrow> bool" where
  "entirely_above r1 r2 = (rect_y r1 + rect_height r1 \<le> rect_y r2)"

definition spec_intersects :: "rect \<Rightarrow> rect \<Rightarrow> bool" where
  "spec_intersects r1 r2 =
     (\<not> (entirely_left_of r1 r2 \<or> entirely_left_of r2 r1 \<or>
         entirely_above r1 r2 \<or> entirely_above r2 r1))"

definition rect_of_area :: "drawing \<Rightarrow> rect" where
  "rect_of_area area =
     \<lparr>rect_x = area_x area, rect_y = area_y area,
      rect_width = area_width area, rect_height = area_height area\<rparr>"

definition rect_of_cell :: "host \<Rightarrow> cell \<Rightarrow> rect" where
  "rect_of_cell h c =
     \<lparr>rect_x = fst (getPixelPos h c), rect_y = snd (getPixelPos h c),
      rect_width = gridSize h, rect_height = gridSize h\<rparr>"

subsection \<open>A concrete scene\<close>

text \<open>
  A square grid of cell size 50 with eight neighbors per cell, and a randomizer given by
  its stream of totals.
\<close>

definition square_grid :: "(string \<Rightarrow> nat \<Rightarrow> int) \<Rightarrow> host" where
  "square_grid roller =
     \<lparr>getGridPositionFromPixels = (\<lambda>x y. (y div 50, x div 50)),
      getPixelsFromGridPosition = (\<lambda>row col. (col * 50, row * 50)),
      getNeighbors = (\<lambda>row col.
        [(row - 1, col - 1), (row - 1, col), (row - 1, col + 1),
         (row, col - 1), (row, col + 1),
         (row + 1, col - 1), (row + 1, col), (row + 1, col + 1)]),
      grid_w = 50,
      roll_total = roller\<rparr>"

definition fire_at :: "int \<Rightarrow> int \<Rightarrow> token_data" where
  "fire_at x y =
     \<lparr>data_x = x, data_y = y, data_img = ''fire.png'', data_name = ''Fire'',
      flags_wildfire_fire = True\<rparr>"

definition flammable_rect :: "int \<Rightarrow> int \<Rightarrow> int \<Rightarrow> int \<Rightarrow> drawing" where
  "flammable_rect x y width height =
     \<lparr>area_x = x, area_y = y, area_width = width, area_height = height,
      flags_wildfire_flammable = True\<rparr>"

text \<open>Randomizers: one that always draws the same total, one that replays a list.\<close>

definition always :: "int \<Rightarrow> string \<Rightarrow> nat \<Rightarrow> int" where
  "always v f n = v"

definition replay :: "int list \<Rightarrow> string \<Rightarrow> nat \<Rightarrow> int" where
  "replay vs f n = (if n < length vs then vs ! n else 0)"

text \<open>A persistence layer that rejects every batch, and one that creates every record.\<close>

definition reject_all :: "token_data list \<Rightarrow> createMany_result" where
  "reject_all batch = Rejected"

definition create_all :: "token_data list \<Rightarrow> createMany_result" where
  "create_all batch = Fulfilled batch"

text \<open>One fire in cell \<open>(0, 0)\<close> and a flammable region over the pixels (0,0)-(150,150).\<close>

definition scene1 :: world where
  "scene1 =
     \<lparr>heap = [fire_at 0 0], tokens = [0], drawings = [flammable_rect 0 0 150 150],
      rolled = [], notified = []\<rparr>"

text \<open>
  The instance created from the fire of the first scene, and its state once a call of
  \<open>spread\<close> is suspended.
\<close>

definition instance1 :: state where
  "instance1 = new_Wildfire 0 None scene1"

definition suspended1 :: state where
  "suspended1 = snd (spread_begin (square_grid (always 1)) None instance1)"

text \<open>The same scene with the fire token moved off the grid, to the pixel (10, 10).\<close>

definition offgrid_scene :: world where
  "offgrid_scene =
     \<lparr>heap = [fire_at 10 10], tokens = [0], drawings = [flammable_rect 0 0 150 150],
      rolled = [], notified = []\<rparr>"

text \<open>
  A fire moved off the grid to the pixel (10, 10), inside the cell \<open>(0, 0)\<close>, next to a
  fire in the cell \<open>(0, 1)\<close>, and the instance created from the first of them.
\<close>

definition offgrid_pair_scene :: world where
  "offgrid_pair_scene =
     \<lparr>heap = [fire_at 10 10, fire_at 50 0], tokens = [0, 1],
      drawings = [flammable_rect 0 0 150 150], rolled = [], notified = []\<rparr>"

definition offgrid_pair_instance :: state where
  "offgrid_pair_instance = new_Wildfire 0 None offgrid_pair_scene"

text \<open>
  Fires in the cells \<open>(0, 0)\<close> and \<open>(0, 2)\<close>, and a flammable region that is exactly
  the cell \<open>(0, 1)\<close> between them.
\<close>

definition corridor_scene :: world where
  "corridor_scene =
     \<lparr>heap = [fire_at 0 0, fire_at 100 0], tokens = [0, 1],
      drawings = [flammable_rect 50 0 50 50], rolled = [], notified = []\<rparr>"

text \<open>The instance created from the first fire of the corridor scene.\<close>

definition corridor_instance :: state where
  "corridor_instance = new_Wildfire 0 None corridor_scene"

text \<open>Data that no fire of these scenes has.\<close>

definition lava :: token_data where
  "lava =
     \<lparr>data_x = 999, data_y = 999, data_img = ''lava.png'', data_name = ''Lava'',
      flags_wildfire_fire = False\<rparr>"

section \<open>Basic facts\<close>

lemma light_eq:
  "light h c (self, wd) =
     (self\<lparr>newFires := newFires self @ [Suc (length (heap wd))]\<rparr>,
      wd\<lparr>heap := heap wd @
         [heap wd ! priv_token self,
          (heap wd ! priv_token self)
            \<lparr>data_x := fst (getPixelPos h c), data_y := snd (getPixelPos h c)\<rparr>]\<rparr>)"
  by (simp add: duplicate_def Let_def split_beta nth_append list_update_append)

lemma spreadToCell_cases:
  "spreadToCell h c ch (self, wd) =
     (if \<not> isFlammable h (self, wd) c then (self, wd)
      else if js_less (roll_total h (formula ch) (length (rolled wd))) (target ch)
        then (self, wd\<lparr>rolled := rolled wd @ [c]\<rparr>)
        else light h c (self, wd\<lparr>rolled := rolled wd @ [c]\<rparr>))"
  by (simp add: Let_def del: light.simps isFlammable.simps)

lemma isBurning_iff:
  "isBurning h (self, wd) c \<longleftrightarrow>
     (\<exists>t \<in> set (realFires wd @ newFires self). anchor wd t = getPixelPos h c)"
  by (auto simp: anchor_def list_ex_iff split_beta prod_eq_iff)

text \<open>
  Whatever every call of \<open>spreadToCell\<close> preserves is preserved by the loops around it.
\<close>

lemma fold_spreadToCell_inv:
  assumes step: "\<And>c st. I st \<Longrightarrow> I (spreadToCell h c ch st)"
  shows "I st \<Longrightarrow> I (fold (\<lambda>c. spreadToCell h c ch) cs st)"
  by (induction cs arbitrary: st) (simp_all add: step)

lemma spreadToNeighbors_inv:
  assumes step: "\<And>c st. I st \<Longrightarrow> I (spreadToCell h c ch st)"
  shows "I st \<Longrightarrow> I (spreadToNeighbors h fire ch st)"
  by (cases st) (simp add: Let_def fold_spreadToCell_inv [where I = I, OF step])

lemma fold_spreadToNeighbors_inv:
  assumes step: "\<And>c st. I st \<Longrightarrow> I (spreadToCell h c ch st)"
  shows "I st \<Longrightarrow> I (fold (\<lambda>fire. spreadToNeighbors h fire ch) fs st)"
  by (induction fs arbitrary: st) (simp_all add: spreadToNeighbors_inv [where I = I, OF step])

lemma spreadToCell_frame:
  "spreading (fst (spreadToCell h c ch st)) = spreading (fst st) \<and>
   chance (fst (spreadToCell h c ch st)) = chance (fst st) \<and>
   priv_token (fst (spreadToCell h c ch st)) = priv_token (fst st)"
  by (cases st) (simp add: spreadToCell_cases light_eq del: spreadToCell.simps light.simps isFlammable.simps)

lemma sync_spreading:
  "spreading (fst (fold (\<lambda>fire. spreadToNeighbors h fire ch) fs st)) = spreading (fst st)"
proof -
  have "(\<lambda>s. spreading (fst s) = spreading (fst st))
          (fold (\<lambda>fire. spreadToNeighbors h fire ch) fs st)"
    by (rule fold_spreadToNeighbors_inv) (simp_all add: spreadToCell_frame)
  then show ?thesis by simp
qed

lemma new_Wildfire_fields:
  "new_Wildfire p ch wd =
     (\<lparr>priv_token = length (heap wd),
       chance = (case ch of None \<Rightarrow> default_chance | Some c \<Rightarrow> c),
       newFires = [], spreading = False\<rparr>,
      wd\<lparr>heap := heap wd @ [heap wd ! p]\<rparr>)"
  by (simp add: new_Wildfire_def duplicate_def)

lemma light_newFires:
  "newFires (fst (light h c (self, wd))) = newFires self @ [Suc (length (heap wd))] \<and>
   anchor (snd (light h c (self, wd))) (Suc (length (heap wd))) = getPixelPos h c \<and>
   rolled (snd (light h c (self, wd))) = rolled wd"
  by (simp add: light_eq anchor_def nth_append del: light.simps)

text \<open>One call of \<open>spreadToCell\<close> has one of three outcomes.\<close>

lemma spreadToCell_shape:
  obtains (skip) "\<not> isFlammable h (self, wd) c" "spreadToCell h c ch (self, wd) = (self, wd)"
  | (miss) "isFlammable h (self, wd) c"
      "js_less (roll_total h (formula ch) (length (rolled wd))) (target ch)"
      "spreadToCell h c ch (self, wd) = (self, wd\<lparr>rolled := rolled wd @ [c]\<rparr>)"
  | (hit) "isFlammable h (self, wd) c"
      "\<not> js_less (roll_total h (formula ch) (length (rolled wd))) (target ch)"
      "spreadToCell h c ch (self, wd) =
         (self\<lparr>newFires := newFires self @ [Suc (length (heap wd))]\<rparr>,
          wd\<lparr>rolled := rolled wd @ [c],
             heap := heap wd @
               [heap wd ! priv_token self,
                (heap wd ! priv_token self)
                  \<lparr>data_x := fst (getPixelPos h c), data_y := snd (getPixelPos h c)\<rparr>]\<rparr>)"
proof (cases "isFlammable h (self, wd) c")
  case False
  then show ?thesis using skip by (simp add: spreadToCell_cases del: spreadToCell.simps isFlammable.simps)
next
  case True
  show ?thesis
  proof (cases "js_less (roll_total h (formula ch) (length (rolled wd))) (target ch)")
    case True
    with \<open>isFlammable h (self, wd) c\<close> show ?thesis using miss
      by (simp add: spreadToCell_cases del: spreadToCell.simps isFlammable.simps)
  next
    case False
    with \<open>isFlammable h (self, wd) c\<close> show ?thesis using hit
      by (simp add: spreadToCell_cases light_eq del: spreadToCell.simps isFlammable.simps light.simps)
  qed
qed

lemma isInFlammableArea_pixel:
  "getPixelPos h c' = getPixelPos h c \<Longrightarrow> drawings wd' = drawings wd \<Longrightarrow>
     isInFlammableArea h wd' c' = isInFlammableArea h wd c"
  by (simp add: isInFlammableArea_def flammableAreas_def areaContains_def)

lemma anchor_rolled: "anchor (wd\<lparr>rolled := r\<rparr>) = anchor wd"
  by (rule ext) (simp add: anchor_def)

lemma spread_resume_Rejected: "spread_resume Rejected st = (Raised CommitFailed, st)"
  by (cases st) simp

lemma spread_while_spreading: "spreading (fst st) \<Longrightarrow> spread h createMany ch st = (Ok, st)"
  by (cases st) (simp add: spread_def)

lemma spread_resume_Fulfilled:
  "spread_resume (Fulfilled created) st =
     (Ok,
      ((fst st)\<lparr>newFires := [], spreading := False\<rparr>,
       (snd st)\<lparr>heap := heap (snd st) @ created,
          tokens := tokens (snd st) @
            [length (heap (snd st)) ..< length (heap (snd st)) + length created],
          notified := notified (snd st) @ [length (newFires (fst st))]\<rparr>))"
  by (cases st) simp

lemma spread_idle:
  "\<not> spreading (fst st) \<Longrightarrow>
     spread h createMany ch st =
       spread_resume
         (createMany (map (\<lambda>a. heap (snd (snd (spread_begin h ch st))) ! a)
            (newFires (fst (snd (spread_begin h ch st))))))
         (snd (spread_begin h ch st))"
  by (cases st) (simp add: spread_def Let_def del: spread_resume.simps)

lemma spread_Fulfilled_clears:
  "createMany (map (\<lambda>a. heap (snd (snd (spread_begin h ch st))) ! a)
       (newFires (fst (snd (spread_begin h ch st))))) = Fulfilled created \<Longrightarrow>
   \<not> spreading (fst st) \<Longrightarrow>
   fst (spread h createMany ch st) = Ok \<and>
   newFires (fst (snd (spread h createMany ch st))) = [] \<and>
   \<not> spreading (fst (snd (spread h createMany ch st)))"
  by (simp add: spread_idle spread_resume_Fulfilled del: spread_resume.simps spread_begin.simps)

subsection \<open>The synchronous part of a step as one loop over the visited cells\<close>

lemma extends_nth:
  "extends wd0 st \<Longrightarrow> a < length (heap wd0) \<Longrightarrow> heap (snd st) ! a = heap wd0 ! a"
  unfolding extends_def by (metis nth_take)

lemma extends_step: "extends wd0 st \<Longrightarrow> extends wd0 (spreadToCell h c ch st)"
proof -
  assume e: "extends wd0 st"
  obtain s w where st: "st = (s, w)" by (cases st)
  show ?thesis
    by (cases rule: spreadToCell_shape [of h s w c ch]) (use e st in \<open>simp_all add: extends_def\<close>)
qed

lemma extends_spreadCells: "extends wd0 st \<Longrightarrow> extends wd0 (spreadCells h ch cs st)"
  unfolding spreadCells_def by (rule fold_spreadToCell_inv) (simp_all add: extends_step)

lemma spreadCells_append:
  "spreadCells h ch (cs @ ds) st = spreadCells h ch ds (spreadCells h ch cs st)"
  by (simp add: spreadCells_def)

lemma sync_as_visits_aux:
  "extends wd0 st \<Longrightarrow> list_all (\<lambda>a. a < length (heap wd0)) fs \<Longrightarrow>
     fold (\<lambda>fire. spreadToNeighbors h fire ch) fs st =
     spreadCells h ch
       (concat (map (\<lambda>fire. getNeighbors_of h (getGridPos h (anchor wd0 fire))) fs)) st"
proof (induction fs arbitrary: st)
  case Nil
  then show ?case by (simp add: spreadCells_def)
next
  case (Cons f fs)
  obtain s w where st: "st = (s, w)" by (cases st)
  from Cons.prems have f: "f < length (heap wd0)" by simp
  have an: "anchor w f = anchor wd0 f"
    using extends_nth [OF Cons.prems(1) f] st by (simp add: anchor_def)
  have one: "spreadToNeighbors h f ch st
      = spreadCells h ch (getNeighbors_of h (getGridPos h (anchor wd0 f))) st"
    using an unfolding st by (simp add: Let_def spreadCells_def anchor_def)
  have ext: "extends wd0 (spreadToNeighbors h f ch st)"
    unfolding one using Cons.prems(1) by (rule extends_spreadCells)
  show ?case
    using Cons.IH [OF ext] Cons.prems(2)
    by (simp add: one spreadCells_append del: spreadToNeighbors.simps)
qed

lemma realFires_bound:
  "list_all (\<lambda>a. a < length (heap wd)) (tokens wd) \<Longrightarrow>
     list_all (\<lambda>a. a < length (heap wd)) (realFires wd)"
  by (simp add: realFires_def list_all_iff)

lemma sync_as_visits:
  assumes "list_all (\<lambda>a. a < length (heap wd)) (tokens wd)" and "\<not> spreading self"
  shows "spread_begin h ch (self, wd) =
     (Awaiting (newFires (fst (spreadCells h (case ch of None \<Rightarrow> chance self | Some c \<Rightarrow> c)
        (visits h wd) (self\<lparr>spreading := True\<rparr>, wd)))),
      spreadCells h (case ch of None \<Rightarrow> chance self | Some c \<Rightarrow> c)
        (visits h wd) (self\<lparr>spreading := True\<rparr>, wd))"
proof -
  have "extends wd (self\<lparr>spreading := True\<rparr>, wd)" by (simp add: extends_def)
  from sync_as_visits_aux [OF this realFires_bound [OF assms(1)]]
  show ?thesis using assms(2) by (simp add: Let_def visits_def)
qed

lemma realFires_extends:
  assumes e: "extends wd0 st" and t: "list_all (\<lambda>a. a < length (heap wd0)) (tokens wd0)"
  shows "realFires (snd st) = realFires wd0"
    and "map (anchor (snd st)) (realFires wd0) = map (anchor wd0) (realFires wd0)"
proof -
  have same: "\<And>a. a \<in> set (tokens wd0) \<Longrightarrow> heap (snd st) ! a = heap wd0 ! a"
    using extends_nth [OF e] t by (simp add: list_all_iff)
  have tk: "tokens (snd st) = tokens wd0" using e by (simp add: extends_def)
  show "realFires (snd st) = realFires wd0"
    unfolding realFires_def tk by (rule filter_cong) (simp_all add: same)
  show "map (anchor (snd st)) (realFires wd0) = map (anchor wd0) (realFires wd0)"
    by (rule map_cong) (simp_all add: anchor_def realFires_def same)
qed

lemmas scene_defs = square_grid_def fire_at_def flammable_rect_def scene1_def always_def
  create_all_def instance1_def
  getPixelPos_def getGridPos_def getNeighbors_of_def gridSize_def realFires_def flammableAreas_def
  isInFlammableArea_def areaContains_def anchor_def new_Wildfire_fields default_chance_def
  js_less_def ToNumber_def StringToNumber_def trim_def isWhiteSpace_def isDigit_def
  duplicate_def nth_append

lemma suspended1_value:
  "suspended1 =
     (\<lparr>priv_token = 1, chance = \<lparr>formula = ''1d1'', target = Str ''1''\<rparr>,
       newFires = [3, 5, 7], spreading = True\<rparr>,
      \<lparr>heap = [fire_at 0 0, fire_at 0 0, fire_at 0 0, fire_at 50 0, fire_at 0 0, fire_at 0 50,
               fire_at 0 0, fire_at 50 50],
       tokens = [0], drawings = [flammable_rect 0 0 150 150],
       rolled = [(0, 1), (1, 0), (1, 1)], notified = []\<rparr>)"
  by (simp add: suspended1_def scene_defs Let_def)

section \<open>The region containment test\<close>

lemma areaContains_spec:
  "areaContains h area c = spec_intersects (rect_of_area area) (rect_of_cell h c)"
  by (auto simp: areaContains_def spec_intersects_def entirely_left_of_def entirely_above_def
      rect_of_area_def rect_of_cell_def split_beta Let_def)

text \<open>
  Claim C6. \<open>areaContains\<close> is the four-condition exclusion test on the rectangle of the
  drawing and the rectangle of the cell: it holds iff neither rectangle is entirely to the
  left of or above the other (which covers right of and below), the test is symmetric in the
  two rectangles, also when the drawing and the cell exchange their rectangles, and two
  rectangles that touch along an edge do not intersect.
\<close>

theorem areaContains_four_condition_test:
  "areaContains h area c = spec_intersects (rect_of_area area) (rect_of_cell h c) \<and>
   spec_intersects r1 r2 = spec_intersects r2 r1 \<and>
   (rect_of_area area' = rect_of_cell h c \<and> rect_of_cell h' c' = rect_of_area area
      \<longrightarrow> areaContains h' area' c' = areaContains h area c) \<and>
   (rect_x r1 + rect_width r1 = rect_x r2 \<or> rect_y r1 + rect_height r1 = rect_y r2
      \<longrightarrow> \<not> spec_intersects r1 r2 \<and> \<not> spec_intersects r2 r1)"
proof -
  have sym: "\<And>a b. spec_intersects a b = spec_intersects b a"
    by (auto simp: spec_intersects_def)
  have touch: "rect_x r1 + rect_width r1 = rect_x r2 \<or> rect_y r1 + rect_height r1 = rect_y r2
      \<longrightarrow> \<not> spec_intersects r1 r2 \<and> \<not> spec_intersects r2 r1"
    by (auto simp: spec_intersects_def entirely_left_of_def entirely_above_def)
  have swap: "rect_of_area area' = rect_of_cell h c \<and> rect_of_cell h' c' = rect_of_area area
      \<longrightarrow> areaContains h' area' c' = areaContains h area c"
    by (simp add: areaContains_spec sym [of "rect_of_cell h c"])
  show ?thesis using sym [of r1 r2] touch swap by (simp add: areaContains_spec)
qed

theorem areaContains_four_condition_test_witness:
  "rect_of_area (flammable_rect 50 0 50 50) = rect_of_cell (square_grid (always 1)) (0, 1) \<and>
   rect_of_cell (square_grid (always 1)) (0, 0) = rect_of_area (flammable_rect 0 0 50 50) \<and>
   areaContains (square_grid (always 1)) (flammable_rect 50 0 50 50) (0, 0) =
     areaContains (square_grid (always 1)) (flammable_rect 0 0 50 50) (0, 1) \<and>
   rect_x (rect_of_area (flammable_rect 0 0 50 50)) + rect_width (rect_of_area (flammable_rect 0 0 50 50))
     = rect_x (rect_of_area (flammable_rect 50 0 50 50)) \<and>
   \<not> spec_intersects (rect_of_area (flammable_rect 0 0 50 50)) (rect_of_area (flammable_rect 50 0 50 50)) \<and>
   \<not> areaContains (square_grid (always 1)) (flammable_rect 0 0 50 50) (0, 1) \<and>
   areaContains (square_grid (always 1)) (flammable_rect 0 0 150 150) (0, 1)"
  using areaContains_four_condition_test
    [of "square_grid (always 1)" "flammable_rect 0 0 50 50" "(0, 1)"
        "rect_of_area (flammable_rect 0 0 50 50)" "rect_of_area (flammable_rect 50 0 50 50)"
        "flammable_rect 50 0 50 50" "square_grid (always 1)" "(0, 0)"]
  by (simp add: rect_of_area_def rect_of_cell_def flammable_rect_def square_grid_def
      getPixelPos_def gridSize_def areaContains_def spec_intersects_def entirely_left_of_def
      entirely_above_def always_def)

section \<open>The guard of \<open>spread\<close>\<close>

lemma spread_begin_idle:
  "\<not> spreading self \<Longrightarrow>
     \<exists>b st'. spread_begin h ch (self, wd) = (Awaiting b, st') \<and> spreading (fst st')"
  by (simp add: Let_def sync_spreading)

lemma exec_guard_inv: "guard_inv cfg \<Longrightarrow> guard_inv (exec h e cfg)"
proof -
  assume inv: "guard_inv cfg"
  obtain p self wd where cfg: "cfg = (p, (self, wd))" by (metis prod.exhaust)
  show ?thesis
  proof (cases e)
    case (Call ch)
    show ?thesis
    proof (cases "spreading self")
      case True
      then show ?thesis using inv cfg Call by (simp add: guard_inv_def)
    next
      case False
      then have p: "p = []" using inv cfg by (auto simp: guard_inv_def)
      from spread_begin_idle [OF False, of h ch wd] obtain b st'
        where "spread_begin h ch (self, wd) = (Awaiting b, st')" "spreading (fst st')" by blast
      then show ?thesis using cfg Call p by (simp add: guard_inv_def del: spread_begin.simps)
    qed
  next
    case (Settle r)
    show ?thesis
    proof (cases p)
      case Nil
      then show ?thesis using inv cfg Settle by (simp add: guard_inv_def)
    next
      case (Cons b p')
      then have "p' = []" using inv cfg by (simp add: guard_inv_def)
      then show ?thesis using cfg Settle Cons by (simp add: guard_inv_def del: spread_resume.simps)
    qed
  next
    case (Env f)
    then show ?thesis using inv cfg by (simp add: guard_inv_def)
  qed
qed

lemma run_guard_inv: "guard_inv cfg \<Longrightarrow> guard_inv (run h evs cfg)"
  unfolding run_def by (induction evs arbitrary: cfg) (simp_all add: exec_guard_inv)

text \<open>
  Claim C7. A call of \<open>spread\<close> made while the flag \<open>spreading\<close> is set returns at once
  without raising and leaves the instance, the scene and the randomizer as they were, and
  suspends nothing; and in every configuration reachable from a new instance by calls of
  \<open>spread\<close>, settling promises and changes of the scene, at most one call is suspended.
\<close>

theorem guard_noop:
  "(spreading self \<longrightarrow>
      spread_begin h ch (self, wd) = (Done, (self, wd)) \<and>
      spread h createMany ch (self, wd) = (Ok, (self, wd)) \<and>
      exec h (Call ch) (p, (self, wd)) = (p, (self, wd))) \<and>
   length (fst (run h evs ([], new_Wildfire prototype ch0 wd0))) \<le> 1"
proof -
  have "guard_inv ([], new_Wildfire prototype ch0 wd0)"
    by (simp add: guard_inv_def)
  then have "guard_inv (run h evs ([], new_Wildfire prototype ch0 wd0))"
    by (rule run_guard_inv)
  then show ?thesis by (simp add: guard_inv_def spread_def)
qed

theorem guard_noop_witness:
  "spreading (fst suspended1) \<and>
   spread_begin (square_grid (always 1)) None suspended1 = (Done, suspended1) \<and>
   spread (square_grid (always 1)) Fulfilled None suspended1 = (Ok, suspended1) \<and>
   exec (square_grid (always 1)) (Call None) ([newFires (fst suspended1)], suspended1)
     = ([newFires (fst suspended1)], suspended1) \<and>
   length (fst (run (square_grid (always 1)) [Call None, Call None, Settle Rejected, Call None]
     ([], new_Wildfire 0 None scene1))) \<le> 1"
proof -
  have s: "spreading (fst suspended1)"
    by (simp add: suspended1_value)
  show ?thesis
    using s guard_noop [of "fst suspended1" "square_grid (always 1)" None "snd suspended1" Fulfilled
      "[newFires (fst suspended1)]" "[Call None, Call None, Settle Rejected, Call None]" 0 None scene1]
    by simp
qed

section \<open>Flammability gating\<close>

lemma gated_step:
  assumes nf: "\<not> isInFlammableArea h wd c" and g: "gated h c self wd st"
  shows "gated h c self wd (spreadToCell h c' ch st)"
proof -
  obtain s w where st: "st = (s, w)" by (cases st)
  from g st have dr: "drawings w = drawings wd"
    and tk: "take (length (newFires self)) (newFires s) = newFires self"
    and al: "list_all (\<lambda>a. a < length (heap w) \<and> anchor w a \<noteq> getPixelPos h c)
        (drop (length (newFires self)) (newFires s))"
    by (simp_all add: gated_def)
  from tk have len: "length (newFires self) \<le> length (newFires s)"
    by (metis length_take min.cobounded1)
  show ?thesis
  proof (cases rule: spreadToCell_shape [of h s w c' ch])
    case skip
    then show ?thesis using g st by simp
  next
    case miss
    then show ?thesis using dr tk al st by (simp add: gated_def anchor_def)
  next
    case hit
    from hit(1) have "isInFlammableArea h w c'" by simp
    then have ne: "getPixelPos h c' \<noteq> getPixelPos h c"
      using nf isInFlammableArea_pixel [OF _ dr, of h c' c] by auto
    have old: "list_all (\<lambda>a. a < Suc (Suc (length (heap w))) \<and>
        anchor (w\<lparr>rolled := rolled w @ [c'], heap := heap w @
               [heap w ! priv_token s,
                (heap w ! priv_token s)
                  \<lparr>data_x := fst (getPixelPos h c'), data_y := snd (getPixelPos h c')\<rparr>]\<rparr>) a \<noteq> getPixelPos h c)
        (drop (length (newFires self)) (newFires s))"
      using al by (auto simp: list_all_iff anchor_def nth_append)
    show ?thesis
      unfolding st hit(3) using dr tk len old ne
      by (simp add: gated_def anchor_def nth_append prod_eq_iff)
  qed
qed

lemma gated_sync:
  assumes nf: "\<not> isInFlammableArea h wd c"
  shows "gated h c self wd (snd (spread_begin h ch (self, wd)))"
proof (cases "spreading self")
  case True
  then show ?thesis by (simp add: gated_def)
next
  case False
  have "gated h c self wd (fold (\<lambda>fire. spreadToNeighbors h fire (case ch of None \<Rightarrow> chance self | Some c \<Rightarrow> c))
          (realFires wd) (self\<lparr>spreading := True\<rparr>, wd))"
  proof (rule fold_spreadToNeighbors_inv [where I = "gated h c self wd"])
    show "\<And>c' st. gated h c self wd st \<Longrightarrow>
        gated h c self wd (spreadToCell h c' (case ch of None \<Rightarrow> chance self | Some c \<Rightarrow> c) st)"
      by (rule gated_step [OF nf])
    show "gated h c self wd (self\<lparr>spreading := True\<rparr>, wd)"
      by (simp add: gated_def)
  qed
  then show ?thesis using False by (simp add: Let_def)
qed
text \<open>
  Claim C3. A cell that intersects no flammable region is never ignited, whatever the chance
  and whatever the randomizer draws: \<open>spreadToCell\<close> on such a cell changes nothing, and
  over the whole synchronous part of a step the pending fires are only added to, none of the
  added ones being anchored at that cell.
\<close>

theorem flammability_gating:
  "\<not> isInFlammableArea h wd c \<longrightarrow>
     spreadToCell h c ch (self, wd) = (self, wd) \<and>
     take (length (newFires self)) (newFires (fst (snd (spread_begin h cho (self, wd))))) = newFires self \<and>
     (\<forall>a \<in> set (drop (length (newFires self)) (newFires (fst (snd (spread_begin h cho (self, wd)))))).
        anchor (snd (snd (spread_begin h cho (self, wd)))) a \<noteq> getPixelPos h c)"
proof
  assume nf: "\<not> isInFlammableArea h wd c"
  then have a: "spreadToCell h c ch (self, wd) = (self, wd)"
    by (simp add: spreadToCell_cases del: spreadToCell.simps)
  from gated_sync [OF nf, of self cho]
  show "spreadToCell h c ch (self, wd) = (self, wd) \<and>
     take (length (newFires self)) (newFires (fst (snd (spread_begin h cho (self, wd))))) = newFires self \<and>
     (\<forall>a \<in> set (drop (length (newFires self)) (newFires (fst (snd (spread_begin h cho (self, wd)))))).
        anchor (snd (snd (spread_begin h cho (self, wd)))) a \<noteq> getPixelPos h c)"
    using a by (simp add: gated_def list_all_iff del: spread_begin.simps spreadToCell.simps)
qed

theorem flammability_gating_witness:
  "\<not> isInFlammableArea (square_grid (always 1)) (snd instance1) (- 1, 0) \<and>
   (- 1, 0) \<in> set (visits (square_grid (always 1)) (snd instance1)) \<and>
   spreadToCell (square_grid (always 1)) (- 1, 0) \<lparr>formula = ''1d1'', target = Num 0\<rparr> instance1
     = instance1 \<and>
   map (anchor (snd (snd (spread_begin (square_grid (always 1))
          (Some \<lparr>formula = ''1d1'', target = Num 0\<rparr>) instance1))))
     (newFires (fst (snd (spread_begin (square_grid (always 1))
          (Some \<lparr>formula = ''1d1'', target = Num 0\<rparr>) instance1))))
     = [(50, 0), (0, 50), (50, 50)]"
  using flammability_gating [of "square_grid (always 1)" "snd instance1" "(- 1, 0)"
      "\<lparr>formula = ''1d1'', target = Num 0\<rparr>" "fst instance1"
      "Some \<lparr>formula = ''1d1'', target = Num 0\<rparr>"]
  by (simp add: scene_defs visits_def Let_def)

section \<open>No double ignition\<close>

lemma step_inv_step:
  assumes inv: "step_inv wd0 st"
  shows "step_inv wd0 (spreadToCell h c ch st)"
proof -
  obtain s w where st: "st = (s, w)" by (cases st)
  from inv st have e: "extends wd0 (s, w)"
    and t: "list_all (\<lambda>a. a < length (heap wd0)) (tokens wd0)"
    and n: "list_all (\<lambda>a. a < length (heap w)) (newFires s)"
    and d: "distinct (map (anchor w) (newFires s))"
    and j: "set (map (anchor w) (newFires s)) \<inter> set (map (anchor wd0) (realFires wd0)) = {}"
    by (simp_all add: step_inv_def pending_ok_def)
  show ?thesis
  proof (cases rule: spreadToCell_shape [of h s w c ch])
    case skip
    then show ?thesis using inv st by simp
  next
    case miss
    then show ?thesis using inv st
      by (simp add: step_inv_def pending_ok_def extends_def anchor_rolled)
  next
    case hit
    let ?w' = "w\<lparr>rolled := rolled w @ [c], heap := heap w @
               [heap w ! priv_token s,
                (heap w ! priv_token s)
                  \<lparr>data_x := fst (getPixelPos h c), data_y := snd (getPixelPos h c)\<rparr>]\<rparr>"
    let ?s' = "s\<lparr>newFires := newFires s @ [Suc (length (heap w))]\<rparr>"
    from hit(1) have nb: "\<forall>t \<in> set (realFires w @ newFires s). anchor w t \<noteq> getPixelPos h c"
      by (simp add: isBurning_iff del: isBurning.simps)
    have rf: "realFires w = realFires wd0"
      and ra: "map (anchor w) (realFires wd0) = map (anchor wd0) (realFires wd0)"
      using realFires_extends [OF e t] by simp_all
    have old: "map (anchor ?w') (newFires s) = map (anchor w) (newFires s)"
      by (rule map_cong) (use n in \<open>simp_all add: anchor_def nth_append list_all_iff\<close>)
    have new: "anchor ?w' (Suc (length (heap w))) = getPixelPos h c"
      by (simp add: anchor_def nth_append)
    have p1: "getPixelPos h c \<notin> set (map (anchor w) (newFires s))"
      using nb by auto
    have p2: "getPixelPos h c \<notin> set (map (anchor wd0) (realFires wd0))"
      using nb rf ra by (metis (no_types, lifting) UnI1 image_iff list.set_map set_append)
    have ext: "extends wd0 (?s', ?w')"
      using e by (simp add: extends_def)
    have n': "list_all (\<lambda>a. a < length (heap ?w')) (newFires ?s')"
      using n by (auto simp: list_all_iff)
    have pk: "pending_ok wd0 (?s', ?w')"
      using d j p1 p2 by (simp add: pending_ok_def old new)
    show ?thesis
      unfolding st hit(3) step_inv_def using ext t n' pk by simp
  qed
qed

lemma step_inv_spreadCells: "step_inv wd0 st \<Longrightarrow> step_inv wd0 (spreadCells h ch cs st)"
  unfolding spreadCells_def
  by (rule fold_spreadToCell_inv [where I = "step_inv wd0"]) (rule step_inv_step)

lemma step_inv_entry:
  "heap_ok (self, wd) \<Longrightarrow> pending_ok wd (self, wd) \<Longrightarrow>
     step_inv wd (self\<lparr>spreading := True\<rparr>, wd)"
  by (simp add: step_inv_def heap_ok_def extends_def pending_ok_def)

lemma cells_from_anchors:
  assumes p: "pending_ok wd0 st"
    and r: "list_all (on_grid h wd0) (realFires wd0)"
    and n: "pending_on_grid h st"
  shows "cells_ok h wd0 st"
proof -
  have og_new: "\<And>a. a \<in> set (newFires (fst st)) \<Longrightarrow>
      getPixelPos h (cell_of h (snd st) a) = anchor (snd st) a"
    using n unfolding pending_on_grid_def on_grid_def list_all_iff by blast
  have og_real: "\<And>t. t \<in> set (realFires wd0) \<Longrightarrow>
      getPixelPos h (cell_of h wd0 t) = anchor wd0 t"
    using r unfolding on_grid_def list_all_iff by blast
  from p have da: "distinct (map (anchor (snd st)) (newFires (fst st)))"
    and dj: "set (map (anchor (snd st)) (newFires (fst st))) \<inter>
        set (map (anchor wd0) (realFires wd0)) = {}"
    unfolding pending_ok_def by blast+
  from da have dx: "distinct (newFires (fst st))"
    and ia: "inj_on (anchor (snd st)) (set (newFires (fst st)))"
    unfolding distinct_map by blast+
  have ic: "inj_on (cell_of h (snd st)) (set (newFires (fst st)))"
  proof (rule inj_onI)
    fix a b
    assume a: "a \<in> set (newFires (fst st))" and b: "b \<in> set (newFires (fst st))"
      and e: "cell_of h (snd st) a = cell_of h (snd st) b"
    have "anchor (snd st) a = anchor (snd st) b"
      using og_new [OF a] og_new [OF b] e by metis
    then show "a = b" using a b ia by (simp add: inj_on_def)
  qed
  have d: "distinct (map (cell_of h (snd st)) (newFires (fst st)))"
    unfolding distinct_map using dx ic by blast
  have j: "set (map (cell_of h (snd st)) (newFires (fst st))) \<inter>
        set (map (cell_of h wd0) (realFires wd0)) = {}"
  proof (rule ccontr)
    assume "\<not> ?thesis"
    then obtain a t where a: "a \<in> set (newFires (fst st))" and t: "t \<in> set (realFires wd0)"
      and e: "cell_of h (snd st) a = cell_of h wd0 t"
      unfolding set_map by blast
    have "anchor (snd st) a = anchor wd0 t"
      using og_new [OF a] og_real [OF t] e by metis
    moreover have "anchor (snd st) a \<in> set (map (anchor (snd st)) (newFires (fst st)))"
      unfolding set_map using a by blast
    moreover have "anchor wd0 t \<in> set (map (anchor wd0) (realFires wd0))"
      unfolding set_map using t by blast
    ultimately show False using dj by (metis IntI empty_iff)
  qed
  from d j show ?thesis unfolding cells_ok_def by blast
qed

lemma pending_on_grid_step:
  assumes law: "\<forall>c. getGridPos h (getPixelPos h c) = c" and g: "pending_on_grid h st"
  shows "pending_on_grid h (spreadToCell h c ch st)"
proof -
  obtain s w where st: "st = (s, w)" by (cases st)
  show ?thesis
  proof (cases rule: spreadToCell_shape [of h s w c ch])
    case skip
    then show ?thesis using g st by simp
  next
    case miss
    then show ?thesis using g st
      by (simp add: pending_on_grid_def on_grid_def cell_of_def anchor_rolled)
  next
    case hit
    have new: "getPixelPos h (getGridPos h (getPixelPos h c)) = getPixelPos h c"
      using law [rule_format, of c] by (simp only:)
    from g st have old: "\<forall>a \<in> set (newFires s). a < length (heap w) \<and>
        getPixelPos h (getGridPos h (anchor w a)) = anchor w a"
      by (simp add: pending_on_grid_def on_grid_def cell_of_def list_all_iff)
    show ?thesis unfolding st hit(3) using old new
      by (auto simp: pending_on_grid_def on_grid_def cell_of_def anchor_def nth_append list_all_iff)
  qed
qed

lemma pending_on_grid_spreadCells:
  "\<forall>c. getGridPos h (getPixelPos h c) = c \<Longrightarrow> pending_on_grid h st \<Longrightarrow>
     pending_on_grid h (spreadCells h ch cs st)"
  unfolding spreadCells_def
  by (rule fold_spreadToCell_inv [where I = "pending_on_grid h"]) (rule pending_on_grid_step)

lemma exec_idle_inv: "idle_inv cfg \<Longrightarrow> idle_inv (exec h e cfg)"
proof -
  assume inv: "idle_inv cfg"
  obtain p self wd where cfg: "cfg = (p, (self, wd))" by (metis prod.exhaust)
  show ?thesis
  proof (cases e)
    case (Call ch)
    show ?thesis
    proof (cases "spreading self")
      case True
      then show ?thesis using cfg Call by (simp add: idle_inv_def)
    next
      case False
      from spread_begin_idle [OF False, of h ch wd] obtain b st'
        where "spread_begin h ch (self, wd) = (Awaiting b, st')" "spreading (fst st')" by blast
      then show ?thesis using cfg Call by (simp add: idle_inv_def del: spread_begin.simps)
    qed
  next
    case (Settle r)
    show ?thesis
    proof (cases p)
      case Nil
      then show ?thesis using inv cfg Settle by (simp add: idle_inv_def)
    next
      case (Cons b p')
      show ?thesis
      proof (cases r)
        case (Fulfilled created)
        then show ?thesis using cfg Settle Cons by (simp add: idle_inv_def)
      next
        case Rejected
        then show ?thesis using inv cfg Settle Cons by (simp add: idle_inv_def)
      qed
    qed
  next
    case (Env f)
    then show ?thesis using inv cfg by (simp add: idle_inv_def)
  qed
qed

lemma run_idle_inv: "idle_inv cfg \<Longrightarrow> idle_inv (run h evs cfg)"
  unfolding run_def by (induction evs arbitrary: cfg) (simp_all add: exec_idle_inv)

lemma reachable_idle:
  "spreading (fst (snd (run h evs ([], new_Wildfire prototype ch0 wd0)))) \<or>
   newFires (fst (snd (run h evs ([], new_Wildfire prototype ch0 wd0)))) = []"
proof -
  have "idle_inv ([], new_Wildfire prototype ch0 wd0)"
    by (simp add: idle_inv_def new_Wildfire_fields)
  from run_idle_inv [OF this, of h evs] show ?thesis by (simp add: idle_inv_def)
qed

text \<open>
  What the step does keep. \<open>isBurning\<close> compares anchors, so in a step entered with a
  sound heap and pending fires whose anchors are pairwise different and different from those
  of the real fires, the synchronous part is the loop over the visited cells, and after every
  prefix of that loop the anchors of the pending fires are pairwise different and none is the
  anchor of a fire that was burning at entry; when the commit is fulfilled, \<open>newFires\<close>
  is empty. The condition at entry holds whenever a step can start. Read on grid cells, the
  same holds only when the grid maps the top-left pixel of a cell back to that cell and the
  fires at entry are anchored at the top-left pixel of their cells.
\<close>

lemma pending_anchors_invariant:
  assumes "heap_ok (self, wd)" and "pending_ok wd (self, wd)" and "\<not> spreading self"
  shows "snd (spread_begin h ch (self, wd)) =
           spreadCells h (case ch of None \<Rightarrow> chance self | Some c \<Rightarrow> c) (visits h wd)
             (self\<lparr>spreading := True\<rparr>, wd) \<and>
         (\<forall>k \<le> length (visits h wd).
            pending_ok wd (spreadCells h (case ch of None \<Rightarrow> chance self | Some c \<Rightarrow> c)
              (take k (visits h wd)) (self\<lparr>spreading := True\<rparr>, wd))) \<and>
         (\<forall>created.
            createMany (map (\<lambda>a. heap (snd (snd (spread_begin h ch (self, wd)))) ! a)
              (newFires (fst (snd (spread_begin h ch (self, wd)))))) = Fulfilled created
            \<longrightarrow> newFires (fst (snd (spread h createMany ch (self, wd)))) = []) \<and>
         (spreading (fst (snd (run h evs ([], new_Wildfire prototype ch0 wd0)))) \<or>
          pending_ok wd1 (snd (run h evs ([], new_Wildfire prototype ch0 wd0)))) \<and>
         ((\<forall>c. getGridPos h (getPixelPos h c) = c) \<and>
          list_all (on_grid h wd) (realFires wd) \<and> list_all (on_grid h wd) (newFires self) \<longrightarrow>
          (\<forall>k \<le> length (visits h wd).
             cells_ok h wd (spreadCells h (case ch of None \<Rightarrow> chance self | Some c \<Rightarrow> c)
               (take k (visits h wd)) (self\<lparr>spreading := True\<rparr>, wd))))"
proof -
  from assms(1) have tk: "list_all (\<lambda>a. a < length (heap wd)) (tokens wd)"
    by (simp add: heap_ok_def)
  have a: "snd (spread_begin h ch (self, wd)) =
           spreadCells h (case ch of None \<Rightarrow> chance self | Some c \<Rightarrow> c) (visits h wd)
             (self\<lparr>spreading := True\<rparr>, wd)"
    using sync_as_visits [OF tk assms(3), of h ch] by simp
  have b: "\<And>k. pending_ok wd (spreadCells h (case ch of None \<Rightarrow> chance self | Some c \<Rightarrow> c)
              (take k (visits h wd)) (self\<lparr>spreading := True\<rparr>, wd))"
    using step_inv_spreadCells [OF step_inv_entry [OF assms(1,2)]] by (simp add: step_inv_def)
  have c: "\<And>created.
            createMany (map (\<lambda>a. heap (snd (snd (spread_begin h ch (self, wd)))) ! a)
              (newFires (fst (snd (spread_begin h ch (self, wd)))))) = Fulfilled created
            \<Longrightarrow> newFires (fst (snd (spread h createMany ch (self, wd)))) = []"
    using spread_Fulfilled_clears [of createMany h ch "(self, wd)"] assms(3) by simp
  have d: "spreading (fst (snd (run h evs ([], new_Wildfire prototype ch0 wd0)))) \<or>
          pending_ok wd1 (snd (run h evs ([], new_Wildfire prototype ch0 wd0)))"
    using reachable_idle [of h evs prototype ch0 wd0] by (auto simp: pending_ok_def)
  have e: "(\<forall>c. getGridPos h (getPixelPos h c) = c) \<and>
          list_all (on_grid h wd) (realFires wd) \<and> list_all (on_grid h wd) (newFires self) \<longrightarrow>
          (\<forall>k \<le> length (visits h wd).
             cells_ok h wd (spreadCells h (case ch of None \<Rightarrow> chance self | Some c \<Rightarrow> c)
               (take k (visits h wd)) (self\<lparr>spreading := True\<rparr>, wd)))"
  proof (intro impI allI, elim conjE)
    fix k
    assume law: "\<forall>c. getGridPos h (getPixelPos h c) = c"
      and r: "list_all (on_grid h wd) (realFires wd)"
      and n: "list_all (on_grid h wd) (newFires self)"
    from assms(1) n have "pending_on_grid h (self\<lparr>spreading := True\<rparr>, wd)"
      by (simp add: pending_on_grid_def heap_ok_def list_all_iff)
    from pending_on_grid_spreadCells [OF law this]
    show "cells_ok h wd (spreadCells h (case ch of None \<Rightarrow> chance self | Some c \<Rightarrow> c)
               (take k (visits h wd)) (self\<lparr>spreading := True\<rparr>, wd))"
      using b r by (simp add: cells_from_anchors)
  qed
  from a b c d e show ?thesis by blast
qed

lemma pending_anchors_invariant_example:
  "heap_ok instance1 \<and> pending_ok (snd instance1) instance1 \<and> \<not> spreading (fst instance1) \<and>
   length (visits (square_grid (always 1)) (snd instance1)) = 8 \<and>
   pending_ok (snd instance1)
     (spreadCells (square_grid (always 1)) (chance (fst instance1))
        (take 5 (visits (square_grid (always 1)) (snd instance1)))
        ((fst instance1)\<lparr>spreading := True\<rparr>, snd instance1)) \<and>
   newFires (fst (spreadCells (square_grid (always 1)) (chance (fst instance1))
        (take 5 (visits (square_grid (always 1)) (snd instance1)))
        ((fst instance1)\<lparr>spreading := True\<rparr>, snd instance1))) = [3] \<and>
   create_all (map (\<lambda>a. heap (snd (snd (spread_begin (square_grid (always 1)) None instance1))) ! a)
     (newFires (fst (snd (spread_begin (square_grid (always 1)) None instance1)))))
     = Fulfilled [fire_at 50 0, fire_at 0 50, fire_at 50 50] \<and>
   newFires (fst (snd (spread (square_grid (always 1)) create_all None instance1))) = [] \<and>
   (spreading (fst (snd (run (square_grid (always 1)) [Call None, Settle Rejected]
       ([], new_Wildfire 0 None scene1)))) \<or>
    pending_ok scene1 (snd (run (square_grid (always 1)) [Call None, Settle Rejected]
       ([], new_Wildfire 0 None scene1)))) \<and>
   (\<forall>c. getGridPos (square_grid (always 1)) (getPixelPos (square_grid (always 1)) c) = c) \<and>
   list_all (on_grid (square_grid (always 1)) (snd instance1)) (realFires (snd instance1)) \<and>
   list_all (on_grid (square_grid (always 1)) (snd instance1)) (newFires (fst instance1)) \<and>
   cells_ok (square_grid (always 1)) (snd instance1)
     (spreadCells (square_grid (always 1)) (chance (fst instance1))
        (take 5 (visits (square_grid (always 1)) (snd instance1)))
        ((fst instance1)\<lparr>spreading := True\<rparr>, snd instance1))"
proof -
  have g: "\<forall>c. getGridPos (square_grid (always 1)) (getPixelPos (square_grid (always 1)) c) = c"
    "list_all (on_grid (square_grid (always 1)) (snd instance1)) (realFires (snd instance1))"
    "list_all (on_grid (square_grid (always 1)) (snd instance1)) (newFires (fst instance1))"
    by (simp_all add: on_grid_def cell_of_def scene_defs)
  have h: "heap_ok instance1" by (simp add: heap_ok_def scene_defs)
  have p: "pending_ok (snd instance1) instance1" by (simp add: pending_ok_def scene_defs)
  have s: "\<not> spreading (fst instance1)" by (simp add: scene_defs)
  have l: "length (visits (square_grid (always 1)) (snd instance1)) = 8"
    by (simp add: visits_def scene_defs)
  have n: "newFires (fst (spreadCells (square_grid (always 1)) (chance (fst instance1))
        (take 5 (visits (square_grid (always 1)) (snd instance1)))
        ((fst instance1)\<lparr>spreading := True\<rparr>, snd instance1))) = [3]"
    by (simp add: visits_def spreadCells_def scene_defs)
  have c: "create_all (map (\<lambda>a. heap (snd (snd (spread_begin (square_grid (always 1)) None instance1))) ! a)
     (newFires (fst (snd (spread_begin (square_grid (always 1)) None instance1)))))
     = Fulfilled [fire_at 50 0, fire_at 0 50, fire_at 50 50]"
    using suspended1_value by (simp add: suspended1_def create_all_def fire_at_def del: spread_begin.simps)
  show ?thesis
    using pending_anchors_invariant [of "fst instance1" "snd instance1" "square_grid (always 1)" None create_all
        "[Call None, Settle Rejected]" 0 None scene1 scene1]
      h p s l n c g
    by (simp del: spread_begin.simps)
qed

text \<open>
  Claim C4, evaluated where the code breaks it. \<open>isBurning\<close> is documented to hold when
  the cell contains a fire, and \<open>spreadToNeighbors\<close> takes the cell of a fire to be the
  cell that contains its anchor; but \<open>isBurning\<close> compares anchors for equality. With a
  fire at the pixel (10, 10), which lies in the cell \<open>(0, 0)\<close>, and a fire in the
  neighboring cell \<open>(0, 1)\<close>, the step is entered with a sound heap and no pending fires,
  the cell \<open>(0, 0)\<close> is visited, is not reported burning, and is lit: the pending fires
  come to hold the cell of a fire that was burning at entry.
\<close>

theorem offgrid_fire_cell_relit:
  "heap_ok offgrid_pair_instance \<and>
   pending_ok (snd offgrid_pair_instance) offgrid_pair_instance \<and>
   \<not> spreading (fst offgrid_pair_instance) \<and>
   realFires (snd offgrid_pair_instance) = [0, 1] \<and>
   anchor (snd offgrid_pair_instance) 0 = (10, 10) \<and>
   cell_of (square_grid (always 1)) (snd offgrid_pair_instance) 0 = (0, 0) \<and>
   (0, 0) \<in> set (visits (square_grid (always 1)) (snd offgrid_pair_instance)) \<and>
   \<not> isBurning (square_grid (always 1)) offgrid_pair_instance (0, 0) \<and>
   map (anchor (snd (snd (spread_begin (square_grid (always 1)) None offgrid_pair_instance))))
     (newFires (fst (snd (spread_begin (square_grid (always 1)) None offgrid_pair_instance))))
     = [(0, 50), (50, 50), (0, 0), (100, 0), (100, 50)] \<and>
   map (cell_of (square_grid (always 1))
          (snd (snd (spread_begin (square_grid (always 1)) None offgrid_pair_instance))))
     (newFires (fst (snd (spread_begin (square_grid (always 1)) None offgrid_pair_instance))))
     = [(1, 0), (1, 1), (0, 0), (0, 2), (1, 2)] \<and>
   \<not> cells_ok (square_grid (always 1)) (snd offgrid_pair_instance)
       (snd (spread_begin (square_grid (always 1)) None offgrid_pair_instance))"
  by (simp add: offgrid_pair_instance_def offgrid_pair_scene_def scene_defs heap_ok_def
      pending_ok_def cells_ok_def cell_of_def visits_def Let_def)

section \<open>What counts as burning\<close>

text \<open>
  Claim C10. \<open>isBurning\<close> tests the anchor for equality: a cell is burning iff some real or
  pending fire is anchored exactly at the cell's top-left pixel. So a cell none of whose fires
  is anchored there is lit when it lies in a flammable region and the roll succeeds, also when
  a fire is anchored strictly inside the cell's rectangle.
\<close>

theorem isBurning_exact_anchor:
  "isBurning h (self, wd) c =
     (\<exists>t \<in> set (realFires wd @ newFires self). anchor wd t = getPixelPos h c) \<and>
   ((\<forall>t \<in> set (realFires wd @ newFires self). anchor wd t \<noteq> getPixelPos h c) \<and>
    isInFlammableArea h wd c \<and>
    \<not> js_less (roll_total h (formula ch) (length (rolled wd))) (target ch)
    \<longrightarrow> newFires (fst (spreadToCell h c ch (self, wd))) = newFires self @ [Suc (length (heap wd))] \<and>
        anchor (snd (spreadToCell h c ch (self, wd))) (Suc (length (heap wd))) = getPixelPos h c)"
proof -
  have a: "isBurning h (self, wd) c =
     (\<exists>t \<in> set (realFires wd @ newFires self). anchor wd t = getPixelPos h c)"
    by (rule isBurning_iff)
  have b: "(\<forall>t \<in> set (realFires wd @ newFires self). anchor wd t \<noteq> getPixelPos h c) \<and>
    isInFlammableArea h wd c \<and>
    \<not> js_less (roll_total h (formula ch) (length (rolled wd))) (target ch)
    \<longrightarrow> newFires (fst (spreadToCell h c ch (self, wd))) = newFires self @ [Suc (length (heap wd))] \<and>
        anchor (snd (spreadToCell h c ch (self, wd))) (Suc (length (heap wd))) = getPixelPos h c"
  proof (intro impI, elim conjE)
    assume n: "\<forall>t \<in> set (realFires wd @ newFires self). anchor wd t \<noteq> getPixelPos h c"
      and f: "isInFlammableArea h wd c"
      and r: "\<not> js_less (roll_total h (formula ch) (length (rolled wd))) (target ch)"
    from n have "\<not> isBurning h (self, wd) c" unfolding a by blast
    with f have fl: "isFlammable h (self, wd) c" by simp
    have "spreadToCell h c ch (self, wd) = light h c (self, wd\<lparr>rolled := rolled wd @ [c]\<rparr>)"
      using fl r by (simp add: spreadToCell_cases del: spreadToCell.simps light.simps isFlammable.simps)
    then show "newFires (fst (spreadToCell h c ch (self, wd))) = newFires self @ [Suc (length (heap wd))] \<and>
        anchor (snd (spreadToCell h c ch (self, wd))) (Suc (length (heap wd))) = getPixelPos h c"
      using light_newFires [of h c self "wd\<lparr>rolled := rolled wd @ [c]\<rparr>"] by simp
  qed
  from a b show ?thesis by blast
qed

theorem isBurning_exact_anchor_witness:
  "fst (getPixelPos (square_grid (always 6)) (0, 0)) < data_x (heap offgrid_scene ! 0) \<and>
   data_x (heap offgrid_scene ! 0) < fst (getPixelPos (square_grid (always 6)) (0, 0)) + gridSize (square_grid (always 6)) \<and>
   snd (getPixelPos (square_grid (always 6)) (0, 0)) < data_y (heap offgrid_scene ! 0) \<and>
   data_y (heap offgrid_scene ! 0) < snd (getPixelPos (square_grid (always 6)) (0, 0)) + gridSize (square_grid (always 6)) \<and>
   realFires (snd (new_Wildfire 0 None offgrid_scene)) = [0] \<and>
   \<not> isBurning (square_grid (always 6)) (new_Wildfire 0 None offgrid_scene) (0, 0) \<and>
   newFires (fst (spreadToCell (square_grid (always 6)) (0, 0) \<lparr>formula = ''1d6'', target = Num 1\<rparr>
      (new_Wildfire 0 None offgrid_scene))) = [3] \<and>
   anchor (snd (spreadToCell (square_grid (always 6)) (0, 0) \<lparr>formula = ''1d6'', target = Num 1\<rparr>
      (new_Wildfire 0 None offgrid_scene))) 3 = (0, 0)"
  using isBurning_exact_anchor [of "square_grid (always 6)" "fst (new_Wildfire 0 None offgrid_scene)"
     "snd (new_Wildfire 0 None offgrid_scene)" "(0, 0)" "\<lparr>formula = ''1d6'', target = Num 1\<rparr>"]
  by (simp add: scene_defs offgrid_scene_def)

section \<open>A failing commit\<close>

lemma rejected_commit_keeps_flag:
  assumes "\<not> spreading (fst st)"
    and "createMany (map (\<lambda>a. heap (snd (snd (spread_begin h ch st))) ! a)
       (newFires (fst (snd (spread_begin h ch st))))) = Rejected"
  shows "spread h createMany ch st = (Raised CommitFailed, snd (spread_begin h ch st))"
    and "spreading (fst (snd (spread h createMany ch st)))"
proof -
  show r: "spread h createMany ch st = (Raised CommitFailed, snd (spread_begin h ch st))"
    using assms by (simp add: spread_idle spread_resume_Rejected del: spread_resume.simps spread_begin.simps)
  obtain self wd where st: "st = (self, wd)" by (cases st)
  from spread_begin_idle [of self h ch wd] assms(1) st
  show "spreading (fst (snd (spread h createMany ch st)))"
    unfolding r by auto
qed

text \<open>
  Claim C1, evaluated on the scene with one fire: when \<open>createMany\<close> rejects, the call of
  \<open>spread\<close> raises, and the state it leaves is the suspended one, with the flag
  \<open>spreading\<close> still set and \<open>newFires\<close> not cleared; a later call of \<open>spread\<close>, with
  a persistence layer that would succeed, returns at the guard and changes nothing.
\<close>

theorem commit_failure_keeps_guard_set:
  "spread (square_grid (always 1)) reject_all None instance1
     = (Raised CommitFailed, suspended1) \<and>
   \<not> spreading (fst instance1) \<and>
   spreading (fst suspended1) \<and>
   newFires (fst suspended1) = [3, 5, 7] \<and>
   spread (square_grid (always 1)) create_all None suspended1 = (Ok, suspended1)"
proof -
  have b: "spread_begin (square_grid (always 1)) None instance1
      = (Awaiting (newFires (fst suspended1)), suspended1)"
    by (simp add: suspended1_def instance1_def new_Wildfire_fields Let_def)
  have s: "spreading (fst suspended1)"
    by (simp add: suspended1_value)
  have r: "spread (square_grid (always 1)) reject_all None instance1
     = (Raised CommitFailed, suspended1)"
    unfolding spread_def b by (simp add: reject_all_def spread_resume_Rejected del: spread_resume.simps)
  have g: "spread (square_grid (always 1)) create_all None suspended1 = (Ok, suspended1)"
    using s by (rule spread_while_spreading)
  have i: "\<not> spreading (fst instance1)"
    by (simp add: instance1_def new_Wildfire_fields)
  have n: "newFires (fst suspended1) = [3, 5, 7]"
    by (simp add: suspended1_value)
  from r s g i n show ?thesis by simp
qed

section \<open>The default chance\<close>



section \<open>Draws per cell\<close>

lemma rolled_step:
  "rolled (snd (spreadToCell h c ch (self, wd))) =
     rolled wd @ (if isFlammable h (self, wd) c then [c] else [])"
  by (cases rule: spreadToCell_shape [of h self wd c ch]) simp_all

lemma count_spreadCells:
  "count_list (rolled (snd (spreadCells h ch cs st))) c
     \<le> count_list (rolled (snd st)) c + count_list cs c"
proof (induction cs arbitrary: st)
  case Nil
  then show ?case by (simp add: spreadCells_def)
next
  case (Cons d ds)
  obtain s w where st: "st = (s, w)" by (cases st)
  have one: "count_list (rolled (snd (spreadToCell h d ch st))) c
      \<le> count_list (rolled (snd st)) c + (if d = c then 1 else 0)"
    unfolding st rolled_step by simp
  have unf: "spreadCells h ch (d # ds) st = spreadCells h ch ds (spreadToCell h d ch st)"
    by (simp add: spreadCells_def)
  show ?case
    unfolding unf using Cons.IH [of "spreadToCell h d ch st"] one
    by (cases "d = c") simp_all
qed

lemma burnt_step:
  assumes b: "burnt h c k st"
  shows "burnt h c k (spreadToCell h c' ch st)"
proof -
  obtain s w where st: "st = (s, w)" by (cases st)
  from b st obtain t where t: "t \<in> set (newFires s)" "t < length (heap w)"
      "anchor w t = getPixelPos h c" and k: "count_list (rolled w) c = k"
    by (auto simp: burnt_def list_ex_iff)
  from t have burning: "isBurning h (s, w) c"
    by (auto simp: isBurning_iff simp del: isBurning.simps)
  show ?thesis
  proof (cases rule: spreadToCell_shape [of h s w c' ch])
    case skip
    then show ?thesis using b st by simp
  next
    case miss
    with burning have "c' \<noteq> c" by auto
    then show ?thesis using miss(3) t k st
      by (auto simp: burnt_def list_ex_iff anchor_rolled)
  next
    case hit
    with burning have "c' \<noteq> c" by auto
    then show ?thesis unfolding st hit(3) using t k
      by (auto simp: burnt_def list_ex_iff anchor_def nth_append)
  qed
qed

lemma burnt_spreadCells: "burnt h c k st \<Longrightarrow> burnt h c k (spreadCells h ch cs st)"
  unfolding spreadCells_def
  by (rule fold_spreadToCell_inv [where I = "burnt h c k"]) (rule burnt_step)

text \<open>
  Claim C2, as the code has it. Every call of \<open>spreadToCell\<close> on a cell that is flammable at
  that moment makes exactly one draw, and a call on any other cell makes none. Candidates are
  not deduplicated: over the synchronous part of a step a cell is rolled at most as often as it
  occurs among the neighbors of the real fires, and once a roll for it has succeeded it is not
  rolled again, whatever cells are visited afterwards.
\<close>

theorem one_draw_per_eligible_visit:
  "rolled (snd (spreadToCell h c ch (self, wd))) =
     rolled wd @ (if isFlammable h (self, wd) c then [c] else []) \<and>
   (list_all (\<lambda>a. a < length (heap wd)) (tokens wd) \<and> \<not> spreading self \<longrightarrow>
      count_list (rolled (snd (snd (spread_begin h cho (self, wd))))) c
        \<le> count_list (rolled wd) c + count_list (visits h wd) c) \<and>
   (isFlammable h (self, wd) c \<and>
    \<not> js_less (roll_total h (formula ch) (length (rolled wd))) (target ch) \<longrightarrow>
      count_list (rolled (snd (spreadCells h ch cs (spreadToCell h c ch (self, wd))))) c
        = count_list (rolled wd) c + 1)"
proof -
  have a: "rolled (snd (spreadToCell h c ch (self, wd))) =
     rolled wd @ (if isFlammable h (self, wd) c then [c] else [])"
    by (rule rolled_step)
  have b: "list_all (\<lambda>a. a < length (heap wd)) (tokens wd) \<and> \<not> spreading self \<longrightarrow>
      count_list (rolled (snd (snd (spread_begin h cho (self, wd))))) c
        \<le> count_list (rolled wd) c + count_list (visits h wd) c"
  proof (intro impI, elim conjE)
    assume t: "list_all (\<lambda>a. a < length (heap wd)) (tokens wd)" and s: "\<not> spreading self"
    show "count_list (rolled (snd (snd (spread_begin h cho (self, wd))))) c
        \<le> count_list (rolled wd) c + count_list (visits h wd) c"
      unfolding sync_as_visits [OF t s]
      using count_spreadCells [of h _ "visits h wd" "(self\<lparr>spreading := True\<rparr>, wd)" c]
      by simp
  qed
  have c: "isFlammable h (self, wd) c \<and>
    \<not> js_less (roll_total h (formula ch) (length (rolled wd))) (target ch) \<longrightarrow>
      count_list (rolled (snd (spreadCells h ch cs (spreadToCell h c ch (self, wd))))) c
        = count_list (rolled wd) c + 1"
  proof (intro impI, elim conjE)
    assume f: "isFlammable h (self, wd) c"
      and r: "\<not> js_less (roll_total h (formula ch) (length (rolled wd))) (target ch)"
    have "burnt h c (count_list (rolled wd) c + 1) (spreadToCell h c ch (self, wd))"
    proof (cases rule: spreadToCell_shape [of h self wd c ch])
      case skip
      with f show ?thesis by simp
    next
      case miss
      with r show ?thesis by simp
    next
      case hit
      show ?thesis unfolding hit(3)
        by (simp add: burnt_def anchor_def nth_append)
    qed
    from burnt_spreadCells [OF this, of ch cs]
    show "count_list (rolled (snd (spreadCells h ch cs (spreadToCell h c ch (self, wd))))) c
        = count_list (rolled wd) c + 1"
      by (simp add: burnt_def)
  qed
  from a b c show ?thesis by blast
qed

text \<open>
  The claim as stated fails: between two fires, with a first draw of 1 against the target 4,
  the cell \<open>(0, 1)\<close> is rolled for each of its two burning neighbors.
\<close>

theorem reroll_after_failed_roll_counterexample:
  "isFlammable (square_grid (replay [1, 5])) corridor_instance (0, 1) \<and>
   count_list (visits (square_grid (replay [1, 5])) (snd corridor_instance)) (0, 1) = 2 \<and>
   rolled (snd (snd (spread_begin (square_grid (replay [1, 5]))
      (Some \<lparr>formula = ''1d6'', target = Num 4\<rparr>) corridor_instance))) = [(0, 1), (0, 1)] \<and>
   count_list (rolled (snd (snd (spread_begin (square_grid (replay [1, 5]))
      (Some \<lparr>formula = ''1d6'', target = Num 4\<rparr>) corridor_instance)))) (0, 1) \<noteq> 1"
  by (simp add: scene_defs corridor_scene_def corridor_instance_def replay_def visits_def Let_def)

theorem one_draw_per_eligible_visit_witness:
  "list_all (\<lambda>a. a < length (heap (snd corridor_instance))) (tokens (snd corridor_instance)) \<and>
   \<not> spreading (fst corridor_instance) \<and>
   isFlammable (square_grid (replay [5, 5])) corridor_instance (0, 1) \<and>
   \<not> js_less (roll_total (square_grid (replay [5, 5])) ''1d6'' 0) (Num 4) \<and>
   count_list (visits (square_grid (replay [5, 5])) (snd corridor_instance)) (0, 1) = 2 \<and>
   rolled (snd (spreadToCell (square_grid (replay [5, 5])) (0, 1)
      \<lparr>formula = ''1d6'', target = Num 4\<rparr> corridor_instance)) = [(0, 1)] \<and>
   count_list (rolled (snd (snd (spread_begin (square_grid (replay [5, 5]))
      (Some \<lparr>formula = ''1d6'', target = Num 4\<rparr>) corridor_instance)))) (0, 1) \<le> 2 \<and>
   count_list (rolled (snd (spreadCells (square_grid (replay [5, 5]))
      \<lparr>formula = ''1d6'', target = Num 4\<rparr> [(0, 1), (1, 1), (0, 1)]
      (spreadToCell (square_grid (replay [5, 5])) (0, 1)
         \<lparr>formula = ''1d6'', target = Num 4\<rparr> corridor_instance)))) (0, 1) = 1"
proof -
  have v: "count_list (visits (square_grid (replay [5, 5])) (snd corridor_instance)) (0, 1) = 2"
    by (simp add: scene_defs corridor_scene_def corridor_instance_def replay_def visits_def)
  have f: "isFlammable (square_grid (replay [5, 5])) corridor_instance (0, 1)"
    by (simp add: scene_defs corridor_scene_def corridor_instance_def replay_def)
  have r: "\<not> js_less (roll_total (square_grid (replay [5, 5])) ''1d6'' 0) (Num 4)"
    by (simp add: scene_defs corridor_scene_def corridor_instance_def replay_def)
  have e: "rolled (snd corridor_instance) = []" "\<not> spreading (fst corridor_instance)"
    "list_all (\<lambda>a. a < length (heap (snd corridor_instance))) (tokens (snd corridor_instance))"
    by (simp_all add: scene_defs corridor_scene_def corridor_instance_def replay_def)
  show ?thesis
    using one_draw_per_eligible_visit [of "square_grid (replay [5, 5])" "(0, 1)"
      "\<lparr>formula = ''1d6'', target = Num 4\<rparr>" "fst corridor_instance" "snd corridor_instance"
      "Some \<lparr>formula = ''1d6'', target = Num 4\<rparr>" "[(0, 1), (1, 1), (0, 1)]"] v f r e
    by (simp del: spread_begin.simps spreadToCell.simps isFlammable.simps)
qed

section \<open>The ignition threshold\<close>








section \<open>Template isolation\<close>

lemma get_token_eq:
  "get_token (self, wd) = (length (heap wd), (self, wd\<lparr>heap := heap wd @ [heap wd ! priv_token self]\<rparr>))"
  by (simp add: duplicate_def)

lemma ignition_record_eq:
  "ignition_record h c (self, wd) =
     (heap wd ! priv_token self)\<lparr>data_x := fst (getPixelPos h c), data_y := snd (getPixelPos h c)\<rparr>"
  by (simp add: ignition_record_def light_eq nth_append del: light.simps)

text \<open>
  Claim C8. The constructor stores a copy of the source token's data at an address of its
  own, so overwriting the source's data afterwards changes neither what a read of the template
  returns nor the record of a later ignition; and a read returns a fresh copy, so overwriting
  the object a read returned changes neither what the next read returns nor the record of a
  later ignition.
\<close>

theorem template_isolation:
  "(src < length (heap wd) \<longrightarrow>
      priv_token (fst (new_Wildfire src cho wd)) \<noteq> src \<and>
      heap (snd (new_Wildfire src cho wd)) ! priv_token (fst (new_Wildfire src cho wd)) = heap wd ! src \<and>
      fst (get_token (mutate src v (new_Wildfire src cho wd))) \<noteq> src \<and>
      heap (snd (snd (get_token (mutate src v (new_Wildfire src cho wd)))))
         ! fst (get_token (mutate src v (new_Wildfire src cho wd))) = heap wd ! src \<and>
      ignition_record h c (mutate src v (new_Wildfire src cho wd)) =
        (heap wd ! src)\<lparr>data_x := fst (getPixelPos h c), data_y := snd (getPixelPos h c)\<rparr>) \<and>
   (priv_token self < length (heap wd1) \<longrightarrow>
      fst (get_token (self, wd1)) \<noteq> priv_token self \<and>
      heap (snd (snd (get_token (self, wd1)))) ! fst (get_token (self, wd1))
        = heap wd1 ! priv_token self \<and>
      fst (get_token (mutate (fst (get_token (self, wd1))) v (snd (get_token (self, wd1)))))
        \<noteq> fst (get_token (self, wd1)) \<and>
      heap (snd (snd (get_token (mutate (fst (get_token (self, wd1))) v (snd (get_token (self, wd1)))))))
         ! fst (get_token (mutate (fst (get_token (self, wd1))) v (snd (get_token (self, wd1)))))
        = heap wd1 ! priv_token self \<and>
      ignition_record h c (mutate (fst (get_token (self, wd1))) v (snd (get_token (self, wd1)))) =
        ignition_record h c (self, wd1))"
proof -
  have a: "src < length (heap wd) \<longrightarrow>
      priv_token (fst (new_Wildfire src cho wd)) \<noteq> src \<and>
      heap (snd (new_Wildfire src cho wd)) ! priv_token (fst (new_Wildfire src cho wd)) = heap wd ! src \<and>
      fst (get_token (mutate src v (new_Wildfire src cho wd))) \<noteq> src \<and>
      heap (snd (snd (get_token (mutate src v (new_Wildfire src cho wd)))))
         ! fst (get_token (mutate src v (new_Wildfire src cho wd))) = heap wd ! src \<and>
      ignition_record h c (mutate src v (new_Wildfire src cho wd)) =
        (heap wd ! src)\<lparr>data_x := fst (getPixelPos h c), data_y := snd (getPixelPos h c)\<rparr>"
    by (simp add: new_Wildfire_fields mutate_def get_token_eq ignition_record_eq nth_append
        list_update_append del: get_token.simps)
  have b: "priv_token self < length (heap wd1) \<longrightarrow>
      fst (get_token (self, wd1)) \<noteq> priv_token self \<and>
      heap (snd (snd (get_token (self, wd1)))) ! fst (get_token (self, wd1))
        = heap wd1 ! priv_token self \<and>
      fst (get_token (mutate (fst (get_token (self, wd1))) v (snd (get_token (self, wd1)))))
        \<noteq> fst (get_token (self, wd1)) \<and>
      heap (snd (snd (get_token (mutate (fst (get_token (self, wd1))) v (snd (get_token (self, wd1)))))))
         ! fst (get_token (mutate (fst (get_token (self, wd1))) v (snd (get_token (self, wd1)))))
        = heap wd1 ! priv_token self \<and>
      ignition_record h c (mutate (fst (get_token (self, wd1))) v (snd (get_token (self, wd1)))) =
        ignition_record h c (self, wd1)"
    by (simp add: mutate_def get_token_eq ignition_record_eq nth_append
        list_update_append del: get_token.simps)
  from a b show ?thesis by blast
qed

theorem template_isolation_witness:
  "0 < length (heap scene1) \<and>
   priv_token (fst instance1) < length (heap (snd instance1)) \<and>
   heap (snd (mutate 0 lava (new_Wildfire 0 None scene1))) ! 0 = lava \<and>
   heap (snd (snd (get_token (mutate 0 lava (new_Wildfire 0 None scene1)))))
      ! fst (get_token (mutate 0 lava (new_Wildfire 0 None scene1))) = fire_at 0 0 \<and>
   ignition_record (square_grid (always 1)) (0, 1) (mutate 0 lava (new_Wildfire 0 None scene1))
     = fire_at 50 0 \<and>
   heap (snd (mutate (fst (get_token instance1)) lava (snd (get_token instance1))))
      ! fst (get_token instance1) = lava \<and>
   heap (snd (snd (get_token (mutate (fst (get_token instance1)) lava (snd (get_token instance1))))))
      ! fst (get_token (mutate (fst (get_token instance1)) lava (snd (get_token instance1))))
     = fire_at 0 0 \<and>
   ignition_record (square_grid (always 1)) (0, 1)
      (mutate (fst (get_token instance1)) lava (snd (get_token instance1))) = fire_at 50 0"
  using template_isolation [of 0 scene1 None lava "square_grid (always 1)" "(0, 1)"
      "fst instance1" "snd instance1"]
  by (simp add: scene_defs mutate_def ignition_record_def lava_def)

end
